theory Spec2Isabelle
  imports Main "HOL-Library.Sublist" "HOL-Library.Multiset"
begin

section \<open>The proxy-rotated job launcher of \<^verbatim>\<open>main.py\<close>\<close>

text \<open>
  This theory embeds \<^verbatim>\<open>WebScrapingJobLauncher\<close> (main.py, lines 170-233).
  Its three nested loops become three functions: \<open>consume\<close> is the loop over
  \<^verbatim>\<open>as_completed(futures)\<close>, \<open>sweep\<close> the loop over
  \<^verbatim>\<open>list(incomplete_jobs)\<close>, \<open>round_loop\<close> the loop
  \<^verbatim>\<open>while proxy_list\<close>. The last one may run forever, so it takes fuel: one unit
  for each evaluation of the loop condition.
\<close>

subsection \<open>Data\<close>

text \<open>
  A job is a Python object; the launcher mutates its attribute \<^verbatim>\<open>IsCompleted\<close>
  through two lists that share the object (\<^verbatim>\<open>video_jobs\<close> and
  \<^verbatim>\<open>incomplete_jobs\<close>) and compares jobs by identity. A job is therefore an
  address, and \<open>IsCompleted\<close> is a store indexed by addresses.
\<close>

type_synonym job = nat

text \<open>
  A proxy is a dictionary read at the keys \<^verbatim>\<open>'ip'\<close> and \<^verbatim>\<open>'port'\<close>;
  any other entry it holds is the extension of the record. List membership and
  \<^verbatim>\<open>list.remove\<close> compare whole dictionaries, the failure tally is keyed by the
  string \<^verbatim>\<open>f"{proxy['ip']}:{proxy['port']}"\<close>.
\<close>

record proxy =
  ip :: string
  port :: string

definition proxy_str :: "'a proxy_scheme \<Rightarrow> string" where
  "proxy_str proxy = ip proxy @ '':'' @ port proxy"

text \<open>
  Modelled from the spec: the enumeration \<^verbatim>\<open>JobStatus\<close> is declared in
  \<^verbatim>\<open>WebScraper/WebScrapingUtility.py\<close>, which is not among the sources; the spec
  gives it three outcomes, and these are the three members the launcher tests.
\<close>

datatype JobStatus = Success | PageConnectionError | GenericError

text \<open>\<^verbatim>\<open>future.result()\<close> returns the status or re-raises what the work function raised.\<close>

datatype attempt = Returns JobStatus | Raises

datatype error = UploadRaised | WriteJsonRaised

text \<open>
  What the launcher does to the outside world, in the order it does it: submitting one
  call of the work function for each proxy of a snapshot, assigning
  \<^verbatim>\<open>job.IsCompleted = True\<close>, and writing the proxy file.
\<close>

datatype 'p event = Submitted job "'p list" | Completed job | Written "'p list"

text \<open>
  The outside world, indexed by a clock that ticks at every iteration of the loop over
  jobs and at every write: the result of the work function for the \<open>i\<close>-th future of a
  round, the rank at which \<^verbatim>\<open>as_completed\<close> yields that future, whether
  \<^verbatim>\<open>job.Lock.locked()\<close> holds, and whether \<^verbatim>\<open>WriteJson\<close> raises.
  The rank is not the time of completion: \<^verbatim>\<open>as_completed\<close> yields the futures
  that are already finished when it is called in an arbitrary order, and only the others
  as they finish. Every order of the futures is the order of some ranks.
\<close>

record 'p environment =
  uploadFunction :: "nat \<Rightarrow> job \<Rightarrow> nat \<Rightarrow> 'p \<Rightarrow> attempt"
  yield_rank :: "nat \<Rightarrow> nat \<Rightarrow> nat"
  Lock_locked :: "nat \<Rightarrow> job \<Rightarrow> bool"
  WriteJson_raises :: "nat \<Rightarrow> bool"

text \<open>The local variables of the launcher, the store of job attributes, and the trace.\<close>

record 'p launcher =
  proxy_list :: "'p list"
  proxy_failures :: "string \<rightharpoonup> nat"
  incomplete_jobs :: "job list"
  IsCompleted :: "job \<Rightarrow> bool"
  clock :: nat
  trace :: "'p event list"

datatype verdict = Returned bool | Aborted error | Unfinished

definition MAX_RETRIES :: nat where
  "MAX_RETRIES = 3"

subsection \<open>The body of the loop over completed futures\<close>

text \<open>\<^verbatim>\<open>WriteJson(PROXY_FILE, proxy_list)\<close>: the call is not guarded by any handler.\<close>

definition WriteJson ::
  "'p environment \<Rightarrow> 'p launcher \<Rightarrow> (error \<times> 'p launcher) + 'p launcher" where
  "WriteJson env s =
     (if WriteJson_raises env (clock s)
      then Inl (WriteJsonRaised, s\<lparr>clock := Suc (clock s)\<rparr>)
      else Inr (s\<lparr>clock := Suc (clock s), trace := trace s @ [Written (proxy_list s)]\<rparr>))"

text \<open>Lines 209-214; the \<^verbatim>\<open>break\<close> is in \<open>consume\<close>.\<close>

definition on_Success :: "job \<Rightarrow> 'p launcher \<Rightarrow> 'p launcher" where
  "on_Success job s =
     s\<lparr>IsCompleted := (IsCompleted s)(job := True),
       incomplete_jobs :=
         (if job \<in> set (incomplete_jobs s) then remove1 job (incomplete_jobs s)
          else incomplete_jobs s),
       trace := trace s @ [Completed job]\<rparr>"

text \<open>Lines 215-218.\<close>

definition on_PageConnectionError ::
  "'p environment \<Rightarrow> 'p \<Rightarrow> 'p launcher \<Rightarrow> (error \<times> 'p launcher) + 'p launcher" where
  "on_PageConnectionError env proxy s =
     (if proxy \<in> set (proxy_list s)
      then WriteJson env (s\<lparr>proxy_list := remove1 proxy (proxy_list s)\<rparr>)
      else Inr s)"

text \<open>Lines 219-226.\<close>

definition failures_get :: "(string \<rightharpoonup> nat) \<Rightarrow> string \<Rightarrow> nat" where
  "failures_get failures k = (case failures k of None \<Rightarrow> 0 | Some c \<Rightarrow> c)"

definition on_GenericError ::
  "'a proxy_scheme environment \<Rightarrow> 'a proxy_scheme \<Rightarrow> 'a proxy_scheme launcher
     \<Rightarrow> (error \<times> 'a proxy_scheme launcher) + 'a proxy_scheme launcher" where
  "on_GenericError env proxy s =
     (let n = failures_get (proxy_failures s) (proxy_str proxy) + 1 in
      if n \<ge> MAX_RETRIES
      then WriteJson env
             (s\<lparr>proxy_list :=
                  (if proxy \<in> set (proxy_list s) then remove1 proxy (proxy_list s)
                   else proxy_list s),
                proxy_failures := (proxy_failures s)(proxy_str proxy := None)\<rparr>)
      else Inr (s\<lparr>proxy_failures := (proxy_failures s)(proxy_str proxy \<mapsto> n)\<rparr>))"

text \<open>
  Lines 202-226: the futures in the order in which they are yielded, each with the proxy
  it was submitted for and its result. A success leaves the loop at once.
\<close>

fun consume ::
  "'a proxy_scheme environment \<Rightarrow> job \<Rightarrow> ('a proxy_scheme \<times> attempt) list
     \<Rightarrow> 'a proxy_scheme launcher
     \<Rightarrow> (error \<times> 'a proxy_scheme launcher) + 'a proxy_scheme launcher" where
  "consume env job [] s = Inr s"
| "consume env job ((proxy, Raises) # futures) s = Inl (UploadRaised, s)"
| "consume env job ((proxy, Returns Success) # futures) s = Inr (on_Success job s)"
| "consume env job ((proxy, Returns PageConnectionError) # futures) s =
     (case on_PageConnectionError env proxy s of
        Inl e \<Rightarrow> Inl e
      | Inr s' \<Rightarrow> consume env job futures s')"
| "consume env job ((proxy, Returns GenericError) # futures) s =
     (case on_GenericError env proxy s of
        Inl e \<Rightarrow> Inl e
      | Inr s' \<Rightarrow> consume env job futures s')"

subsection \<open>One round, one sweep, the outer loop\<close>

text \<open>
  Lines 198-202: one future for each proxy of the current list, numbered in the order
  of submission; \<^verbatim>\<open>as_completed\<close> yields every future once, in the order of
  the ranks the environment gives them. An outcome is consumed when the loop takes it
  up: no \<open>Success\<close> was yielded before it in its round, and nothing raised before it.
\<close>

definition as_completed ::
  "'p environment \<Rightarrow> nat \<Rightarrow> job \<Rightarrow> 'p list \<Rightarrow> ('p \<times> attempt) list" where
  "as_completed env t job snapshot =
     map snd (sort_key fst
       (map (\<lambda>(i, proxy). (yield_rank env t i, (proxy, uploadFunction env t job i proxy)))
            (enumerate 0 snapshot)))"

definition dispatch ::
  "'a proxy_scheme environment \<Rightarrow> job \<Rightarrow> 'a proxy_scheme launcher
     \<Rightarrow> (error \<times> 'a proxy_scheme launcher) + 'a proxy_scheme launcher" where
  "dispatch env job s =
     consume env job (as_completed env (clock s) job (proxy_list s))
       (s\<lparr>clock := Suc (clock s), trace := trace s @ [Submitted job (proxy_list s)]\<rparr>)"

text \<open>Lines 193-229, over the copy \<^verbatim>\<open>list(incomplete_jobs)\<close> taken when the sweep starts.\<close>

fun sweep ::
  "'a proxy_scheme environment \<Rightarrow> job list \<Rightarrow> 'a proxy_scheme launcher
     \<Rightarrow> (error \<times> 'a proxy_scheme launcher) + 'a proxy_scheme launcher" where
  "sweep env [] s = Inr s"
| "sweep env (job # jobs) s =
     (if Lock_locked env (clock s) job
      then sweep env jobs (s\<lparr>clock := Suc (clock s)\<rparr>)
      else (case dispatch env job s of
              Inl e \<Rightarrow> Inl e
            | Inr s' \<Rightarrow> sweep env jobs s'))"

text \<open>Lines 192-233. Without fuel the loop has not returned yet.\<close>

fun round_loop ::
  "nat \<Rightarrow> 'a proxy_scheme environment \<Rightarrow> job list \<Rightarrow> 'a proxy_scheme launcher
     \<Rightarrow> verdict \<times> 'a proxy_scheme launcher" where
  "round_loop 0 env video_jobs s = (Unfinished, s)"
| "round_loop (Suc fuel) env video_jobs s =
     (if proxy_list s \<noteq> []
      then (case sweep env (incomplete_jobs s) s of
              Inl (e, s') \<Rightarrow> (Aborted e, s')
            | Inr s' \<Rightarrow> round_loop fuel env video_jobs s')
      else (Returned (list_all (IsCompleted s) video_jobs), s))"

text \<open>
  Lines 182-190. The results of the collaborators that are not among the sources are
  arguments: the list \<^verbatim>\<open>getProxyList\<close> returns, the list
  \<^verbatim>\<open>GenerateJobsFromVideo\<close> returns, for each job whether
  \<^verbatim>\<open>os.path.isfile(job.GetHTMLOutputFilePath())\<close> holds, and the value of
  \<^verbatim>\<open>IsCompleted\<close> each job is created with.
\<close>

definition init ::
  "'p list \<Rightarrow> job list \<Rightarrow> (job \<Rightarrow> bool) \<Rightarrow> (job \<Rightarrow> bool) \<Rightarrow> 'p launcher" where
  "init loaded video_jobs isfile created =
     \<lparr>proxy_list = loaded, proxy_failures = Map.empty,
      incomplete_jobs = filter (\<lambda>job. \<not> isfile job) video_jobs,
      IsCompleted = created, clock = 0, trace = []\<rparr>"

definition WebScrapingJobLauncher ::
  "nat \<Rightarrow> 'a proxy_scheme environment \<Rightarrow> 'a proxy_scheme list \<Rightarrow> job list
     \<Rightarrow> (job \<Rightarrow> bool) \<Rightarrow> (job \<Rightarrow> bool) \<Rightarrow> verdict \<times> 'a proxy_scheme launcher" where
  "WebScrapingJobLauncher fuel env loaded video_jobs isfile created =
     (let s = init loaded video_jobs isfile created in
      if incomplete_jobs s = [] then (Returned True, s)
      else round_loop fuel env video_jobs s)"

text \<open>The state in which a step ends, whether it ends normally or by raising.\<close>

definition final :: "(error \<times> 's) + 's \<Rightarrow> 's" where
  "final r = (case r of Inl (e, s) \<Rightarrow> s | Inr s \<Rightarrow> s)"

text \<open>
  The rest of a run from a point inside a round: the futures of the current round that
  have not been consumed yet, the jobs of the current sweep that have not been reached
  yet, then the outer loop. With no future, no job and no fuel it is the state itself,
  so a statement about every \<open>resume\<close> is a statement about every later point.
\<close>

definition resume ::
  "nat \<Rightarrow> 'a proxy_scheme environment \<Rightarrow> job list \<Rightarrow> job
     \<Rightarrow> ('a proxy_scheme \<times> attempt) list \<Rightarrow> job list \<Rightarrow> 'a proxy_scheme launcher
     \<Rightarrow> verdict \<times> 'a proxy_scheme launcher" where
  "resume fuel env video_jobs job futures jobs s =
     (case consume env job futures s of
        Inl (e, s') \<Rightarrow> (Aborted e, s')
      | Inr s1 \<Rightarrow>
          (case sweep env jobs s1 of
             Inl (e, s') \<Rightarrow> (Aborted e, s')
           | Inr s2 \<Rightarrow> round_loop fuel env video_jobs s2))"

subsection \<open>Observations on a run\<close>

text \<open>The proxies an event mentions: the snapshot of a round, the list written to the file.\<close>

fun proxies_of :: "'p event \<Rightarrow> 'p list" where
  "proxies_of (Submitted job snapshot) = snapshot"
| "proxies_of (Written payload) = payload"
| "proxies_of (Completed job) = []"

text \<open>The calls of the work function: one for each proxy of each submitted snapshot.\<close>

fun calls :: "'p event \<Rightarrow> (job \<times> 'p) list" where
  "calls (Submitted job snapshot) = map (Pair job) snapshot"
| "calls (Completed job) = []"
| "calls (Written payload) = []"

definition invocations :: "'p launcher \<Rightarrow> (job \<times> 'p) list" where
  "invocations s = concat (map calls (trace s))"

text \<open>The jobs that were assigned \<^verbatim>\<open>IsCompleted = True\<close>, one entry for each assignment.\<close>

fun marks :: "'p event \<Rightarrow> job list" where
  "marks (Completed job) = [job]"
| "marks (Submitted job snapshot) = []"
| "marks (Written payload) = []"

definition completions :: "'p launcher \<Rightarrow> job list" where
  "completions s = concat (map marks (trace s))"


text \<open>
  The outcomes after which the launcher removes the proxy and writes the file: a
  \<open>PageConnectionError\<close> of a proxy that is in the list (lines 216-218), a
  \<open>GenericError\<close> that brings the tally to \<open>MAX_RETRIES\<close> (lines 221-225).
\<close>

definition evicting :: "'a proxy_scheme launcher \<Rightarrow> 'a proxy_scheme \<Rightarrow> JobStatus \<Rightarrow> bool" where
  "evicting s proxy status \<longleftrightarrow>
     status = PageConnectionError \<and> proxy \<in> set (proxy_list s) \<or>
     status = GenericError \<and>
       MAX_RETRIES \<le> failures_get (proxy_failures s) (proxy_str proxy) + 1"

text \<open>
  The part of the state that concerns jobs. Every step but \<open>on_Success\<close> leaves it
  alone.
\<close>

definition jobside :: "'p launcher \<Rightarrow> job list \<times> (job \<Rightarrow> bool) \<times> job list" where
  "jobside s = (incomplete_jobs s, IsCompleted s, completions s)"

subsection \<open>Invariants of a run\<close>

text \<open>
  A predicate on states is stable when every elementary step of the launcher keeps it:
  the three branches of the loop body, the submission of a round and the tick of the
  clock. The jobs that are dispatched may be restricted by a predicate \<open>Q\<close>.
\<close>

definition stable ::
  "'a proxy_scheme environment \<Rightarrow> (job \<Rightarrow> bool) \<Rightarrow> ('a proxy_scheme launcher \<Rightarrow> bool) \<Rightarrow> bool" where
  "stable env Q P \<longleftrightarrow>
     (\<forall>s job. P s \<longrightarrow> Q job \<longrightarrow> P (on_Success job s)) \<and>
     (\<forall>s proxy. P s \<longrightarrow> P (final (on_PageConnectionError env proxy s))) \<and>
     (\<forall>s proxy. P s \<longrightarrow> P (final (on_GenericError env proxy s))) \<and>
     (\<forall>s job. P s \<longrightarrow> Q job \<longrightarrow>
        P (s\<lparr>clock := Suc (clock s), trace := trace s @ [Submitted job (proxy_list s)]\<rparr>)) \<and>
     (\<forall>s. P s \<longrightarrow> P (s\<lparr>clock := Suc (clock s)\<rparr>))"

subsection \<open>Concrete inputs\<close>

definition proxy_A :: proxy where
  "proxy_A = \<lparr>ip = ''10.0.0.1'', port = ''8080''\<rparr>"

definition proxy_B :: proxy where
  "proxy_B = \<lparr>ip = ''10.0.0.2'', port = ''3128''\<rparr>"

text \<open>No output file exists yet; every job is created with \<^verbatim>\<open>IsCompleted = False\<close>.\<close>

definition no_file :: "job \<Rightarrow> bool" where
  "no_file job = False"

definition not_created :: "job \<Rightarrow> bool" where
  "not_created job = False"

text \<open>The output of job 0 is already there, the others are missing.\<close>

definition first_has_file :: "job \<Rightarrow> bool" where
  "first_has_file job = (job = 0)"

text \<open>Every proxy is dead: each attempt returns \<open>PageConnectionError\<close>.\<close>

definition env_dead :: "proxy environment" where
  "env_dead =
     \<lparr>uploadFunction = (\<lambda>t job i p. Returns PageConnectionError),
      yield_rank = (\<lambda>t i. i),
      Lock_locked = (\<lambda>t job. False),
      WriteJson_raises = (\<lambda>t. False)\<rparr>"

text \<open>Every attempt fails with \<open>GenericError\<close>.\<close>

definition env_generic :: "proxy environment" where
  "env_generic =
     \<lparr>uploadFunction = (\<lambda>t job i p. Returns GenericError),
      yield_rank = (\<lambda>t i. i),
      Lock_locked = (\<lambda>t job. False),
      WriteJson_raises = (\<lambda>t. False)\<rparr>"

text \<open>
  Proxy A succeeds and is yielded first; proxy B is yielded after it, with
  \<open>PageConnectionError\<close>.
\<close>

definition env_A_wins :: "proxy environment" where
  "env_A_wins =
     \<lparr>uploadFunction =
        (\<lambda>t job i p. if p = proxy_A then Returns Success else Returns PageConnectionError),
      yield_rank = (\<lambda>t i. i),
      Lock_locked = (\<lambda>t job. False),
      WriteJson_raises = (\<lambda>t. False)\<rparr>"


text \<open>Every attempt fails with \<open>GenericError\<close>, except those for job 2, which succeed.\<close>

definition env_flaky :: "proxy environment" where
  "env_flaky =
     \<lparr>uploadFunction =
        (\<lambda>t job i p. if job = 2 then Returns Success else Returns GenericError),
      yield_rank = (\<lambda>t i. i),
      Lock_locked = (\<lambda>t job. False),
      WriteJson_raises = (\<lambda>t. False)\<rparr>"

text \<open>Every proxy is dead and the proxy file cannot be written.\<close>

definition env_write_fails :: "proxy environment" where
  "env_write_fails =
     \<lparr>uploadFunction = (\<lambda>t job i p. Returns PageConnectionError),
      yield_rank = (\<lambda>t i. i),
      Lock_locked = (\<lambda>t job. False),
      WriteJson_raises = (\<lambda>t. True)\<rparr>"


section \<open>Auxiliary lemmas\<close>

subsection \<open>Stable predicates hold along a run\<close>

lemma final_simps [simp]: "final (Inl (e, s)) = s" "final (Inr s) = s"
  by (simp_all add: final_def)

lemma stable_consume:
  assumes st: "stable env Q P" and q: "Q job" and p: "P s"
  shows "P (final (consume env job futures s))"
  using p
proof (induction futures arbitrary: s)
  case Nil
  then show ?case by simp
next
  case (Cons f futures)
  obtain proxy r where f: "f = (proxy, r)" by (cases f)
  show ?case
  proof (cases r)
    case Raises
    with f Cons.prems show ?thesis by simp
  next
    case (Returns status)
    show ?thesis
    proof (cases status)
      case Success
      with f Returns Cons.prems st q show ?thesis by (simp add: stable_def)
    next
      case PageConnectionError
      from st Cons.prems have *: "P (final (on_PageConnectionError env proxy s))"
        by (simp add: stable_def)
      show ?thesis
      proof (cases "on_PageConnectionError env proxy s")
        case (Inl a)
        with * f Returns PageConnectionError show ?thesis by (cases a) simp
      next
        case (Inr s')
        with * have "P s'" by simp
        from Cons.IH [OF this] f Returns PageConnectionError Inr show ?thesis by simp
      qed
    next
      case GenericError
      from st Cons.prems have *: "P (final (on_GenericError env proxy s))"
        by (simp add: stable_def)
      show ?thesis
      proof (cases "on_GenericError env proxy s")
        case (Inl a)
        with * f Returns GenericError show ?thesis by (cases a) simp
      next
        case (Inr s')
        with * have "P s'" by simp
        from Cons.IH [OF this] f Returns GenericError Inr show ?thesis by simp
      qed
    qed
  qed
qed

lemma stable_dispatch:
  assumes st: "stable env Q P" and q: "Q job" and p: "P s"
  shows "P (final (dispatch env job s))"
  unfolding dispatch_def
  by (rule stable_consume [OF st q]) (use st q p in \<open>simp add: stable_def\<close>)

lemma stable_sweep:
  assumes st: "stable env Q P" and q: "\<forall>job\<in>set jobs. Q job" and p: "P s"
  shows "P (final (sweep env jobs s))"
  using q p
proof (induction jobs arbitrary: s)
  case Nil
  then show ?case by simp
next
  case (Cons job jobs)
  show ?case
  proof (cases "Lock_locked env (clock s) job")
    case True
    from st Cons.prems have "P (s\<lparr>clock := Suc (clock s)\<rparr>)" by (simp add: stable_def)
    with Cons.IH Cons.prems True show ?thesis by simp
  next
    case False
    from Cons.prems have *: "P (final (dispatch env job s))"
      by (intro stable_dispatch [OF st]) simp_all
    show ?thesis
    proof (cases "dispatch env job s")
      case (Inl a)
      with * False show ?thesis by (cases a) simp
    next
      case (Inr s')
      with * have "P s'" by simp
      with Cons.IH Cons.prems False Inr show ?thesis by simp
    qed
  qed
qed

lemma stable_round_loop:
  assumes st: "stable env Q P"
    and inc: "\<And>s. P s \<Longrightarrow> \<forall>job\<in>set (incomplete_jobs s). Q job"
    and p: "P s"
  shows "P (snd (round_loop fuel env video_jobs s))"
  using p
proof (induction fuel arbitrary: s)
  case 0
  then show ?case by simp
next
  case (Suc fuel)
  show ?case
  proof (cases "proxy_list s = []")
    case True
    with Suc.prems show ?thesis by simp
  next
    case False
    from Suc.prems have *: "P (final (sweep env (incomplete_jobs s) s))"
      by (intro stable_sweep [OF st] inc)
    show ?thesis
    proof (cases "sweep env (incomplete_jobs s) s")
      case (Inl a)
      with * False show ?thesis by (cases a) simp
    next
      case (Inr s')
      with * have "P s'" by simp
      with Suc.IH False Inr show ?thesis by simp
    qed
  qed
qed

lemma stable_resume:
  assumes st: "stable env Q P"
    and inc: "\<And>s. P s \<Longrightarrow> \<forall>job\<in>set (incomplete_jobs s). Q job"
    and q: "Q job" "\<forall>job\<in>set jobs. Q job"
    and p: "P s"
  shows "P (snd (resume fuel env video_jobs job futures jobs s))"
proof -
  have c: "P (final (consume env job futures s))"
    by (rule stable_consume [OF st q(1) p])
  show ?thesis
  proof (cases "consume env job futures s")
    case (Inl a)
    with c show ?thesis by (cases a) (simp add: resume_def)
  next
    case (Inr s1)
    with c have s1: "P s1" by simp
    have w: "P (final (sweep env jobs s1))"
      by (rule stable_sweep [OF st q(2) s1])
    show ?thesis
    proof (cases "sweep env jobs s1")
      case (Inl a)
      with w Inr show ?thesis by (cases a) (simp add: resume_def)
    next
      case (Inr s2)
      with w have "P s2" by simp
      from stable_round_loop [OF st inc this] Inr \<open>consume env job futures s = Inr s1\<close>
      show ?thesis by (simp add: resume_def)
    qed
  qed
qed

lemma stable_launcher:
  assumes st: "stable env Q P"
    and inc: "\<And>s. P s \<Longrightarrow> \<forall>job\<in>set (incomplete_jobs s). Q job"
    and p: "P (init loaded video_jobs isfile created)"
  shows "P (snd (WebScrapingJobLauncher fuel env loaded video_jobs isfile created))"
  using stable_round_loop [OF st inc p] p
  by (simp add: WebScrapingJobLauncher_def Let_def)

subsection \<open>Some stable predicates\<close>

lemma subseq_remove1: "subseq (remove1 x xs) xs"
  by (induction xs) auto

lemma stable_shrinks:
  "stable env (\<lambda>job. True)
     (\<lambda>s. subseq (proxy_list s) loaded \<and> (\<forall>e\<in>set (trace s). subseq (proxies_of e) loaded))"
  unfolding stable_def on_Success_def on_PageConnectionError_def on_GenericError_def
    WriteJson_def Let_def
  by (auto intro: subseq_order.trans [OF subseq_remove1])

lemma stable_gone:
  "stable env (\<lambda>job. True)
     (\<lambda>s. proxy \<notin> set (proxy_list s) \<and>
          (\<exists>t. trace s = past @ t \<and> (\<forall>e\<in>set t. proxy \<notin> set (proxies_of e))))"
  unfolding stable_def on_Success_def on_PageConnectionError_def on_GenericError_def
    WriteJson_def Let_def
  by (auto dest: notin_set_remove1)


lemma calls_job: "(job, proxy) \<in> set (calls e) \<Longrightarrow> \<exists>snapshot. e = Submitted job snapshot"
  by (cases e) auto

lemma stable_skips:
  "stable env (\<lambda>job. \<not> isfile job)
     (\<lambda>s. (\<forall>job\<in>set (incomplete_jobs s). \<not> isfile job) \<and>
          (\<forall>e\<in>set (trace s). \<forall>job snapshot. e = Submitted job snapshot \<longrightarrow> \<not> isfile job))"
  unfolding stable_def on_Success_def on_PageConnectionError_def on_GenericError_def
    WriteJson_def Let_def
  by (auto dest: notin_set_remove1)

lemma stable_incomplete_subset:
  "stable env (\<lambda>job. True) (\<lambda>s. set (incomplete_jobs s) \<subseteq> X)"
  unfolding stable_def on_Success_def on_PageConnectionError_def on_GenericError_def
    WriteJson_def Let_def
  by (auto dest: notin_set_remove1)

lemma stable_IsCompleted: "stable env (\<lambda>job. True) (\<lambda>s. IsCompleted s j)"
  unfolding stable_def on_Success_def on_PageConnectionError_def on_GenericError_def
    WriteJson_def Let_def
  by auto

lemma stable_marked_completed:
  "stable env (\<lambda>job. True) (\<lambda>s. \<forall>j\<in>set (completions s). IsCompleted s j)"
  unfolding stable_def on_Success_def on_PageConnectionError_def on_GenericError_def
    WriteJson_def Let_def completions_def
  by auto

subsection \<open>What a round does to the jobs\<close>

lemma jobside_on_Success:
  "jobside s' = jobside s \<Longrightarrow> jobside (on_Success job s') = jobside (on_Success job s)"
  by (simp add: jobside_def on_Success_def completions_def)

lemma jobside_on_PageConnectionError:
  "jobside (final (on_PageConnectionError env proxy s)) = jobside s"
  by (simp add: jobside_def on_PageConnectionError_def WriteJson_def completions_def)

lemma jobside_on_GenericError:
  "jobside (final (on_GenericError env proxy s)) = jobside s"
  by (simp add: jobside_def on_GenericError_def WriteJson_def completions_def Let_def)

lemma jobside_consume:
  "jobside (final (consume env job futures s)) = jobside s \<or>
   jobside (final (consume env job futures s)) = jobside (on_Success job s)"
proof (induction futures arbitrary: s)
  case Nil
  then show ?case by simp
next
  case (Cons f futures)
  obtain proxy r where f: "f = (proxy, r)" by (cases f)
  show ?case
  proof (cases r)
    case Raises
    with f show ?thesis by simp
  next
    case (Returns status)
    show ?thesis
    proof (cases status)
      case Success
      with f Returns show ?thesis by simp
    next
      case PageConnectionError
      note j = jobside_on_PageConnectionError [of env proxy s]
      show ?thesis
      proof (cases "on_PageConnectionError env proxy s")
        case (Inl a)
        with j f Returns PageConnectionError show ?thesis by (cases a) simp
      next
        case (Inr s')
        with j have "jobside s' = jobside s" by simp
        with Cons.IH [of s'] jobside_on_Success [OF this, of job]
          f Returns PageConnectionError Inr
        show ?thesis by auto
      qed
    next
      case GenericError
      note j = jobside_on_GenericError [of env proxy s]
      show ?thesis
      proof (cases "on_GenericError env proxy s")
        case (Inl a)
        with j f Returns GenericError show ?thesis by (cases a) simp
      next
        case (Inr s')
        with j have "jobside s' = jobside s" by simp
        with Cons.IH [of s'] jobside_on_Success [OF this, of job]
          f Returns GenericError Inr
        show ?thesis by auto
      qed
    qed
  qed
qed

lemma jobside_dispatch:
  "jobside (final (dispatch env job s)) = jobside s \<or>
   jobside (final (dispatch env job s)) = jobside (on_Success job s)"
proof -
  let ?s1 = "s\<lparr>clock := Suc (clock s), trace := trace s @ [Submitted job (proxy_list s)]\<rparr>"
  have "jobside ?s1 = jobside s"
    by (simp add: jobside_def completions_def)
  with jobside_consume [of env job "as_completed env (clock s) job (proxy_list s)" ?s1]
    jobside_on_Success [OF this, of job]
  show ?thesis by (auto simp: dispatch_def)
qed

lemma incomplete_after_dispatch:
  assumes "k \<noteq> job"
  shows "k \<in> set (incomplete_jobs (final (dispatch env job s)))
           \<longleftrightarrow> k \<in> set (incomplete_jobs s)"
  using jobside_dispatch [of env job s] assms
  by (auto simp: jobside_def on_Success_def split: if_splits)

lemma marking_sweep:
  assumes jo: "\<And>s s'. jobside s' = jobside s \<Longrightarrow> I s \<Longrightarrow> I s'"
    and su: "\<And>s job. I s \<Longrightarrow> job \<in> set (incomplete_jobs s) \<Longrightarrow> I (on_Success job s)"
    and i: "I s" and d: "distinct jobs" and sub: "set jobs \<subseteq> set (incomplete_jobs s)"
  shows "I (final (sweep env jobs s))"
  using i d sub
proof (induction jobs arbitrary: s)
  case Nil
  then show ?case by simp
next
  case (Cons job jobs)
  show ?case
  proof (cases "Lock_locked env (clock s) job")
    case True
    have "jobside (s\<lparr>clock := Suc (clock s)\<rparr>) = jobside s"
      by (simp add: jobside_def completions_def)
    from jo [OF this Cons.prems(1)] Cons.IH [of "s\<lparr>clock := Suc (clock s)\<rparr>"] Cons.prems True
    show ?thesis by simp
  next
    case False
    let ?s1 = "final (dispatch env job s)"
    from Cons.prems have in_inc: "job \<in> set (incomplete_jobs s)" by simp
    from jobside_dispatch [of env job s] have "I ?s1"
    proof
      assume "jobside ?s1 = jobside s"
      from jo [OF this Cons.prems(1)] show ?thesis .
    next
      assume "jobside ?s1 = jobside (on_Success job s)"
      from jo [OF this su [OF Cons.prems(1) in_inc]] show ?thesis .
    qed
    show ?thesis
    proof (cases "dispatch env job s")
      case (Inl a)
      with \<open>I ?s1\<close> False show ?thesis by (cases a) simp
    next
      case (Inr s')
      with \<open>I ?s1\<close> have "I s'" by simp
      moreover from Cons.prems have "distinct jobs" by simp
      moreover have "set jobs \<subseteq> set (incomplete_jobs s')"
      proof
        fix k assume k: "k \<in> set jobs"
        with Cons.prems have "k \<noteq> job" "k \<in> set (incomplete_jobs s)" by auto
        with incomplete_after_dispatch [of k job env s] Inr
        show "k \<in> set (incomplete_jobs s')" by simp
      qed
      ultimately have "I (final (sweep env jobs s'))" by (rule Cons.IH)
      with False Inr show ?thesis by simp
    qed
  qed
qed

lemma marking_round_loop:
  assumes jo: "\<And>s s'. jobside s' = jobside s \<Longrightarrow> I s \<Longrightarrow> I s'"
    and su: "\<And>s job. I s \<Longrightarrow> job \<in> set (incomplete_jobs s) \<Longrightarrow> I (on_Success job s)"
    and di: "\<And>s. I s \<Longrightarrow> distinct (incomplete_jobs s)"
    and i: "I s"
  shows "I (snd (round_loop fuel env video_jobs s))"
  using i
proof (induction fuel arbitrary: s)
  case 0
  then show ?case by simp
next
  case (Suc fuel)
  show ?case
  proof (cases "proxy_list s = []")
    case True
    with Suc.prems show ?thesis by simp
  next
    case False
    have *: "I (final (sweep env (incomplete_jobs s) s))"
      by (rule marking_sweep [where I = I, OF jo su Suc.prems di [OF Suc.prems]]) simp_all
    show ?thesis
    proof (cases "sweep env (incomplete_jobs s) s")
      case (Inl a)
      with * False show ?thesis by (cases a) simp
    next
      case (Inr s')
      with * have "I s'" by simp
      with Suc.IH False Inr show ?thesis by simp
    qed
  qed
qed

lemma marked_once:
  assumes "distinct video_jobs"
  shows "distinct (completions
           (snd (WebScrapingJobLauncher fuel env loaded video_jobs isfile created)))"
proof -
  let ?I = "\<lambda>s. distinct (incomplete_jobs s) \<and> distinct (completions s) \<and>
                set (incomplete_jobs s) \<inter> set (completions s) = {}"
  let ?s0 = "init loaded video_jobs isfile created"
  from assms have "?I ?s0"
    by (simp add: init_def completions_def)
  then have "?I (snd (round_loop fuel env video_jobs ?s0))"
    by (rule marking_round_loop [where I = ?I, rotated 3])
      (auto simp: jobside_def on_Success_def completions_def)
  with \<open>?I ?s0\<close> show ?thesis
    by (simp add: WebScrapingJobLauncher_def Let_def)
qed

subsection \<open>The outcomes of a round and the proxy list\<close>

text \<open>
  The outcomes of a round that are not consumed yet belong to proxies that are still in
  the list, each future to a copy of its own. Hence a success always leaves a proxy in
  the list, and a sweep cannot end with both lists empty.
\<close>

lemma as_completed_Nil [simp]: "as_completed env t job [] = []"
  by (simp add: as_completed_def)

lemma as_completed_mset:
  "mset (map fst (as_completed env t job snapshot)) = mset snapshot"
proof -
  let ?g = "\<lambda>(i, proxy). (yield_rank env t i, (proxy, uploadFunction env t job i proxy))"
  have 1: "map fst (map snd (map ?g (enumerate 0 snapshot))) = map snd (enumerate 0 snapshot)"
    by (simp add: case_prod_beta o_def)
  have 2: "mset (map fst (map snd (sort_key fst xs))) = mset (map fst (map snd xs))"
    for xs :: "(nat \<times> 'a \<times> attempt) list"
    by simp
  show ?thesis
    unfolding as_completed_def 2 1 by simp
qed

lemma on_PageConnectionError_Inr:
  "on_PageConnectionError env proxy s = Inr s' \<Longrightarrow> proxy \<in> set (proxy_list s) \<Longrightarrow>
     proxy_list s' = remove1 proxy (proxy_list s) \<and> incomplete_jobs s' = incomplete_jobs s"
  by (auto simp: on_PageConnectionError_def WriteJson_def split: if_splits)

lemma on_GenericError_Inr:
  "on_GenericError env proxy s = Inr s' \<Longrightarrow>
     (proxy_list s' = proxy_list s \<or> proxy_list s' = remove1 proxy (proxy_list s))
     \<and> incomplete_jobs s' = incomplete_jobs s"
  by (auto simp: on_GenericError_def WriteJson_def Let_def split: if_splits)

lemma outcomes_left_in_pool:
  assumes "mset (map fst (consumed @ futures)) \<subseteq># mset (proxy_list s)"
    and "Returns Success \<notin> snd ` set consumed"
    and "consume env job consumed s = Inr s'"
  shows "mset (map fst futures) \<subseteq># mset (proxy_list s')"
  using assms
proof (induction consumed arbitrary: s)
  case Nil
  then show ?case by simp
next
  case (Cons f consumed)
  obtain proxy r where f: "f = (proxy, r)" by (cases f)
  from Cons.prems(1) f have mem: "proxy \<in> set (proxy_list s)"
    and rest: "mset (map fst (consumed @ futures)) \<subseteq># mset (proxy_list s) - {#proxy#}"
    by (simp_all add: insert_subset_eq_iff)
  from rest have rest': "mset (map fst (consumed @ futures)) \<subseteq># mset (proxy_list s)"
    by (rule subset_mset.order_trans) simp
  from Cons.prems(2) have no: "Returns Success \<notin> snd ` set consumed" by simp
  show ?case
  proof (cases r)
    case Raises
    with f Cons.prems show ?thesis by simp
  next
    case (Returns status)
    show ?thesis
    proof (cases status)
      case Success
      with f Returns Cons.prems(2) show ?thesis by simp
    next
      case PageConnectionError
      with f Returns Cons.prems(3) obtain s1 where
        s1: "on_PageConnectionError env proxy s = Inr s1" "consume env job consumed s1 = Inr s'"
        by (cases "on_PageConnectionError env proxy s") auto
      from on_PageConnectionError_Inr [OF s1(1) mem] rest
      have "mset (map fst (consumed @ futures)) \<subseteq># mset (proxy_list s1)"
        by simp
      from Cons.IH [OF this no s1(2)] show ?thesis .
    next
      case GenericError
      with f Returns Cons.prems(3) obtain s1 where
        s1: "on_GenericError env proxy s = Inr s1" "consume env job consumed s1 = Inr s'"
        by (cases "on_GenericError env proxy s") auto
      from on_GenericError_Inr [OF s1(1)] rest rest'
      have "mset (map fst (consumed @ futures)) \<subseteq># mset (proxy_list s1)"
        by auto
      from Cons.IH [OF this no s1(2)] show ?thesis .
    qed
  qed
qed

lemma consume_progress:
  assumes "mset (map fst futures) \<subseteq># mset (proxy_list s)"
    and "job \<in> set (incomplete_jobs s)"
    and "consume env job futures s = Inr s'"
  shows "job \<in> set (incomplete_jobs s') \<or> proxy_list s' \<noteq> []"
  using assms
proof (induction futures arbitrary: s)
  case Nil
  then show ?case by simp
next
  case (Cons f futures)
  obtain proxy r where f: "f = (proxy, r)" by (cases f)
  from Cons.prems(1) f have mem: "proxy \<in> set (proxy_list s)"
    and rest: "mset (map fst futures) \<subseteq># mset (proxy_list s) - {#proxy#}"
    by (simp_all add: insert_subset_eq_iff)
  from rest have rest': "mset (map fst futures) \<subseteq># mset (proxy_list s)"
    by (rule subset_mset.order_trans) simp
  show ?case
  proof (cases r)
    case Raises
    with f Cons.prems show ?thesis by simp
  next
    case (Returns status)
    show ?thesis
    proof (cases status)
      case Success
      with f Returns Cons.prems(3) mem show ?thesis
        by (auto simp: on_Success_def)
    next
      case PageConnectionError
      with f Returns Cons.prems(3) obtain s1 where
        s1: "on_PageConnectionError env proxy s = Inr s1" "consume env job futures s1 = Inr s'"
        by (cases "on_PageConnectionError env proxy s") auto
      from on_PageConnectionError_Inr [OF s1(1) mem] rest Cons.prems(2)
      have "mset (map fst futures) \<subseteq># mset (proxy_list s1)" "job \<in> set (incomplete_jobs s1)"
        by simp_all
      from Cons.IH [OF this s1(2)] show ?thesis .
    next
      case GenericError
      with f Returns Cons.prems(3) obtain s1 where
        s1: "on_GenericError env proxy s = Inr s1" "consume env job futures s1 = Inr s'"
        by (cases "on_GenericError env proxy s") auto
      from on_GenericError_Inr [OF s1(1)] rest rest' Cons.prems(2)
      have "mset (map fst futures) \<subseteq># mset (proxy_list s1)" "job \<in> set (incomplete_jobs s1)"
        by auto
      from Cons.IH [OF this s1(2)] show ?thesis .
    qed
  qed
qed

lemma dispatch_progress:
  assumes "job \<in> set (incomplete_jobs s)" and "dispatch env job s = Inr s'"
  shows "job \<in> set (incomplete_jobs s') \<or> proxy_list s' \<noteq> []"
  using assms(2) unfolding dispatch_def
  by (rule consume_progress [rotated 2])
    (use assms(1) as_completed_mset [of env "clock s" job "proxy_list s"] in \<open>simp_all\<close>)

lemma sweep_progress:
  assumes "distinct jobs" and "set jobs \<subseteq> set (incomplete_jobs s)" and "jobs \<noteq> []"
    and "sweep env jobs s = Inr s'"
  shows "incomplete_jobs s' \<noteq> [] \<or> proxy_list s' \<noteq> []"
  using assms
proof (induction jobs arbitrary: s)
  case Nil
  then show ?case by simp
next
  case (Cons job jobs)
  from Cons.prems have in_inc: "job \<in> set (incomplete_jobs s)" by simp
  show ?case
  proof (cases "Lock_locked env (clock s) job")
    case True
    with Cons.prems have sw: "sweep env jobs (s\<lparr>clock := Suc (clock s)\<rparr>) = Inr s'"
      by simp
    show ?thesis
    proof (cases "jobs = []")
      case True
      with sw in_inc show ?thesis by auto
    next
      case False
      with Cons.IH [OF _ _ False sw] Cons.prems show ?thesis by simp
    qed
  next
    case False
    with Cons.prems(4) obtain s1 where
      s1: "dispatch env job s = Inr s1" "sweep env jobs s1 = Inr s'"
      by (cases "dispatch env job s") auto
    show ?thesis
    proof (cases "jobs = []")
      case True
      with s1 dispatch_progress [OF in_inc s1(1)] show ?thesis by auto
    next
      case nonempty: False
      have "set jobs \<subseteq> set (incomplete_jobs s1)"
      proof
        fix k assume k: "k \<in> set jobs"
        with Cons.prems have "k \<noteq> job" "k \<in> set (incomplete_jobs s)" by auto
        with incomplete_after_dispatch [of k job env s] s1(1)
        show "k \<in> set (incomplete_jobs s1)" by simp
      qed
      with Cons.IH [OF _ _ nonempty s1(2)] Cons.prems(1) show ?thesis by simp
    qed
  qed
qed

lemma round_loop_pending:
  assumes "distinct (incomplete_jobs s)"
    and "incomplete_jobs s \<noteq> [] \<or> proxy_list s \<noteq> []"
    and "round_loop fuel env video_jobs s = (Returned b, s')"
  shows "incomplete_jobs s' \<noteq> [] \<and> b = list_all (IsCompleted s') video_jobs"
  using assms
proof (induction fuel arbitrary: s)
  case 0
  then show ?case by simp
next
  case (Suc fuel)
  show ?case
  proof (cases "proxy_list s = []")
    case True
    with Suc.prems show ?thesis by auto
  next
    case False
    with Suc.prems(3) obtain s1 where
      s1: "sweep env (incomplete_jobs s) s = Inr s1"
        "round_loop fuel env video_jobs s1 = (Returned b, s')"
      by (cases "sweep env (incomplete_jobs s) s") (auto split: prod.splits)
    have "distinct (incomplete_jobs (final (sweep env (incomplete_jobs s) s)))"
      by (rule marking_sweep [where I = "\<lambda>s. distinct (incomplete_jobs s)"])
        (use Suc.prems(1) in \<open>auto simp: jobside_def on_Success_def\<close>)
    with s1 have d: "distinct (incomplete_jobs s1)" by simp
    have "incomplete_jobs s1 \<noteq> [] \<or> proxy_list s1 \<noteq> []"
    proof (cases "incomplete_jobs s = []")
      case True
      with s1 False show ?thesis by simp
    next
      case nonempty: False
      from sweep_progress [OF Suc.prems(1) _ nonempty s1(1)] show ?thesis by simp
    qed
    from Suc.IH [OF d this s1(2)] show ?thesis .
  qed
qed

lemma loop_never_returns_when_all_done:
  "incomplete_jobs s = [] \<Longrightarrow> proxy_list s \<noteq> [] \<Longrightarrow>
     round_loop fuel env video_jobs s = (Unfinished, s)"
  by (induction fuel) simp_all

lemma sweep_empty_pool:
  "proxy_list s = [] \<Longrightarrow>
     \<exists>s'. sweep env jobs s = Inr s' \<and> proxy_list s' = [] \<and> IsCompleted s' = IsCompleted s
        \<and> incomplete_jobs s' = incomplete_jobs s \<and> invocations s' = invocations s"
proof (induction jobs arbitrary: s)
  case Nil
  then show ?case by simp
next
  case (Cons job jobs)
  show ?case
  proof (cases "Lock_locked env (clock s) job")
    case True
    from Cons.IH [of "s\<lparr>clock := Suc (clock s)\<rparr>"] Cons.prems True
    show ?thesis by (simp add: invocations_def)
  next
    case False
    let ?s1 = "s\<lparr>clock := Suc (clock s), trace := trace s @ [Submitted job []]\<rparr>"
    from Cons.prems have d: "dispatch env job s = Inr ?s1"
      by (simp add: dispatch_def)
    from Cons.IH [of ?s1] Cons.prems False d
    show ?thesis by (simp add: invocations_def)
  qed
qed

lemma resume_abort:
  "consume env job futures s = Inl (e, s') \<Longrightarrow>
     resume fuel env video_jobs job futures jobs s = (Aborted e, s')"
  by (simp add: resume_def)

lemma resume_PageConnectionError:
  "resume fuel env video_jobs job ((proxy, Returns PageConnectionError) # futures) jobs s =
     (case on_PageConnectionError env proxy s of
        Inl (e, s') \<Rightarrow> (Aborted e, s')
      | Inr s' \<Rightarrow> resume fuel env video_jobs job futures jobs s')"
  by (simp add: resume_def split: sum.splits)

lemma consume_append:
  "Returns Success \<notin> snd ` set before \<Longrightarrow>
     consume env job (before @ futures) s =
       (case consume env job before s of
          Inl e \<Rightarrow> Inl e
        | Inr s1 \<Rightarrow> consume env job futures s1)"
proof (induction env job before s rule: consume.induct)
  case (4 env job proxy before s)
  then show ?case by (cases "on_PageConnectionError env proxy s") simp_all
next
  case (5 env job proxy before s)
  then show ?case by (cases "on_GenericError env proxy s") simp_all
qed simp_all

lemma resume_append:
  "Returns Success \<notin> snd ` set before \<Longrightarrow>
     resume fuel env video_jobs job (before @ futures) jobs s =
       (case consume env job before s of
          Inl (e, s') \<Rightarrow> (Aborted e, s')
        | Inr s1 \<Rightarrow> resume fuel env video_jobs job futures jobs s1)"
  by (simp add: resume_def consume_append split: sum.splits)

lemma late_outcome_keeps_proxy:
  assumes "proxy \<in> set (proxy_list s)" and "proxy \<notin> fst ` set before"
  shows "proxy \<in> set (proxy_list
           (final (consume env job (before @ (winner, Returns Success) # rest) s)))"
  using assms
proof (induction before arbitrary: s)
  case Nil
  then show ?case by (simp add: on_Success_def)
next
  case (Cons f before)
  obtain p r where f: "f = (p, r)" by (cases f)
  with Cons.prems have ne: "proxy \<noteq> p" and nb: "proxy \<notin> fst ` set before" by auto
  show ?case
  proof (cases r)
    case Raises
    with f Cons.prems show ?thesis by simp
  next
    case (Returns status)
    show ?thesis
    proof (cases status)
      case Success
      with f Returns Cons.prems show ?thesis by (simp add: on_Success_def)
    next
      case PageConnectionError
      from Cons.prems(1) ne
      have *: "proxy \<in> set (proxy_list (final (on_PageConnectionError env p s)))"
        by (simp add: on_PageConnectionError_def WriteJson_def)
      show ?thesis
      proof (cases "on_PageConnectionError env p s")
        case (Inl a)
        with * f Returns PageConnectionError show ?thesis by (cases a) simp
      next
        case (Inr s1)
        with * have "proxy \<in> set (proxy_list s1)" by simp
        from Cons.IH [OF this nb] f Returns PageConnectionError Inr show ?thesis by simp
      qed
    next
      case GenericError
      from Cons.prems(1) ne
      have *: "proxy \<in> set (proxy_list (final (on_GenericError env p s)))"
        by (simp add: on_GenericError_def WriteJson_def Let_def)
      show ?thesis
      proof (cases "on_GenericError env p s")
        case (Inl a)
        with * f Returns GenericError show ?thesis by (cases a) simp
      next
        case (Inr s1)
        with * have "proxy \<in> set (proxy_list s1)" by simp
        from Cons.IH [OF this nb] f Returns GenericError Inr show ?thesis by simp
      qed
    qed
  qed
qed




lemma evicted_for_good:
  assumes "distinct (proxy_list s)" and "proxy \<in> set (proxy_list s)"
  shows "proxy \<notin> set (proxy_list (snd
           (resume fuel env video_jobs job ((proxy, Returns PageConnectionError) # futures)
              jobs s)))
    \<and> (if WriteJson_raises env (clock s)
        then resume fuel env video_jobs job ((proxy, Returns PageConnectionError) # futures)
               jobs s
             = (Aborted WriteJsonRaised,
                s\<lparr>proxy_list := remove1 proxy (proxy_list s), clock := Suc (clock s)\<rparr>)
        else prefix (trace s @ [Written (remove1 proxy (proxy_list s))])
               (trace (snd (resume fuel env video_jobs job
                  ((proxy, Returns PageConnectionError) # futures) jobs s))))
    \<and> (\<forall>e\<in>set (drop (length (trace s)) (trace (snd
           (resume fuel env video_jobs job ((proxy, Returns PageConnectionError) # futures)
              jobs s)))).
          proxy \<notin> set (proxies_of e))"
proof (cases "WriteJson_raises env (clock s)")
  case True
  with assms have "resume fuel env video_jobs job
        ((proxy, Returns PageConnectionError) # futures) jobs s
      = (Aborted WriteJsonRaised,
         s\<lparr>proxy_list := remove1 proxy (proxy_list s), clock := Suc (clock s)\<rparr>)"
    by (simp add: resume_PageConnectionError on_PageConnectionError_def WriteJson_def)
  with True assms(1) show ?thesis by simp
next
  case False
  let ?w = "remove1 proxy (proxy_list s)"
  let ?past = "trace s @ [Written ?w]"
  let ?s2 = "s\<lparr>proxy_list := ?w, clock := Suc (clock s), trace := ?past\<rparr>"
  let ?P = "\<lambda>s'. proxy \<notin> set (proxy_list s') \<and>
          (\<exists>t. trace s' = ?past @ t \<and> (\<forall>e\<in>set t. proxy \<notin> set (proxies_of e)))"
  let ?r = "resume fuel env video_jobs job ((proxy, Returns PageConnectionError) # futures)
              jobs s"
  from False assms(2) have r: "?r = resume fuel env video_jobs job futures jobs ?s2"
    by (simp add: resume_PageConnectionError on_PageConnectionError_def WriteJson_def)
  from assms(1) have "?P ?s2" by simp
  then have "?P (snd (resume fuel env video_jobs job futures jobs ?s2))"
    by (rule stable_resume [OF stable_gone, rotated 3]) simp_all
  with r have p: "?P (snd ?r)" by simp
  then obtain t where t: "trace (snd ?r) = ?past @ t"
    "\<forall>e\<in>set t. proxy \<notin> set (proxies_of e)"
    by blast
  from t(1) have "prefix ?past (trace (snd ?r))" by simp
  moreover from t assms(1)
  have "\<forall>e\<in>set (drop (length (trace s)) (trace (snd ?r))). proxy \<notin> set (proxies_of e)"
    by simp
  ultimately show ?thesis using p False by simp
qed

lemma empty_pool_returns:
  assumes "proxy_list s = []"
    and "mset (map fst futures) \<subseteq># mset (proxy_list s)"
  shows "fst (resume (Suc fuel) env video_jobs job futures jobs s)
           = Returned (list_all (IsCompleted s) video_jobs)
         \<and> proxy_list (snd (resume (Suc fuel) env video_jobs job futures jobs s)) = []
         \<and> IsCompleted (snd (resume (Suc fuel) env video_jobs job futures jobs s))
             = IsCompleted s
         \<and> incomplete_jobs (snd (resume (Suc fuel) env video_jobs job futures jobs s))
             = incomplete_jobs s
         \<and> invocations (snd (resume (Suc fuel) env video_jobs job futures jobs s))
             = invocations s"
proof -
  from assms have "futures = []" by simp
  moreover
  from sweep_empty_pool [OF assms(1), of env jobs] obtain s' where
    "sweep env jobs s = Inr s'" "proxy_list s' = []" "IsCompleted s' = IsCompleted s"
    "incomplete_jobs s' = incomplete_jobs s" "invocations s' = invocations s"
    by blast
  ultimately show ?thesis by (simp add: resume_def)
qed

lemma entered_loop_returns_False:
  assumes "distinct video_jobs"
    and "\<forall>job\<in>set video_jobs. \<not> isfile job \<longrightarrow> \<not> created job"
    and "incomplete_jobs (init loaded video_jobs isfile created) \<noteq> []"
    and "WebScrapingJobLauncher fuel env loaded video_jobs isfile created = (Returned b, s)"
  shows "\<not> b"
proof -
  let ?s0 = "init loaded video_jobs isfile created"
  let ?I = "\<lambda>s. distinct (incomplete_jobs s) \<and> (\<forall>k\<in>set (incomplete_jobs s). \<not> IsCompleted s k)"
  from assms(3,4) have run: "round_loop fuel env video_jobs ?s0 = (Returned b, s)"
    by (simp add: WebScrapingJobLauncher_def)
  from assms(1,2) have i0: "?I ?s0"
    by (simp add: init_def)
  then have "?I (snd (round_loop fuel env video_jobs ?s0))"
    by (rule marking_round_loop [where I = ?I, rotated 3])
      (auto simp: jobside_def on_Success_def)
  with run have i: "?I s" by simp
  from i0 assms(3) run have pend: "incomplete_jobs s \<noteq> []"
    and b: "b = list_all (IsCompleted s) video_jobs"
    using round_loop_pending [of ?s0 fuel env video_jobs b s] by simp_all
  have "set (incomplete_jobs (snd (round_loop fuel env video_jobs ?s0)))
          \<subseteq> set (incomplete_jobs ?s0)"
    by (rule stable_round_loop [OF stable_incomplete_subset]) simp_all
  with run have sub: "set (incomplete_jobs s) \<subseteq> {job \<in> set video_jobs. \<not> isfile job}"
    by (simp add: init_def)
  from pend obtain k where k: "k \<in> set (incomplete_jobs s)"
    by (cases "incomplete_jobs s") auto
  with i sub have "k \<in> set video_jobs" "\<not> IsCompleted s k" by auto
  with b show ?thesis by (auto simp: list_all_iff)
qed

subsection \<open>Concrete runs\<close>

lemma run_dead:
  "WebScrapingJobLauncher 2 env_dead [proxy_A, proxy_B] [0] no_file not_created =
     (Returned False,
      \<lparr>proxy_list = [], proxy_failures = Map.empty, incomplete_jobs = [0],
       IsCompleted = not_created, clock = 3,
       trace = [Submitted 0 [proxy_A, proxy_B], Written [proxy_B], Written []]\<rparr>)"
  by (simp add: WebScrapingJobLauncher_def init_def dispatch_def as_completed_def env_dead_def
      on_PageConnectionError_def WriteJson_def no_file_def not_created_def
      proxy_A_def proxy_B_def numeral_2_eq_2 numeral_3_eq_3)

lemma run_skip:
  "WebScrapingJobLauncher 2 env_dead [proxy_A, proxy_B] [0, 1] first_has_file not_created =
     (Returned False,
      \<lparr>proxy_list = [], proxy_failures = Map.empty, incomplete_jobs = [1],
       IsCompleted = not_created, clock = 3,
       trace = [Submitted 1 [proxy_A, proxy_B], Written [proxy_B], Written []]\<rparr>)"
  by (simp add: WebScrapingJobLauncher_def init_def dispatch_def as_completed_def env_dead_def
      on_PageConnectionError_def WriteJson_def first_has_file_def not_created_def
      proxy_A_def proxy_B_def numeral_2_eq_2 numeral_3_eq_3)

lemma run_skip2:
  "WebScrapingJobLauncher 2 env_dead [proxy_A, proxy_B] [0, 2] first_has_file not_created =
     (Returned False,
      \<lparr>proxy_list = [], proxy_failures = Map.empty, incomplete_jobs = [2],
       IsCompleted = not_created, clock = 3,
       trace = [Submitted 2 [proxy_A, proxy_B], Written [proxy_B], Written []]\<rparr>)"
  by (simp add: WebScrapingJobLauncher_def init_def dispatch_def as_completed_def env_dead_def
      on_PageConnectionError_def WriteJson_def first_has_file_def not_created_def
      proxy_A_def proxy_B_def numeral_2_eq_2 numeral_3_eq_3)

lemma run_generic:
  "WebScrapingJobLauncher 4 env_generic [proxy_A] [0] no_file not_created =
     (Returned False,
      \<lparr>proxy_list = [], proxy_failures = Map.empty, incomplete_jobs = [0],
       IsCompleted = not_created, clock = 4,
       trace = [Submitted 0 [proxy_A], Submitted 0 [proxy_A], Submitted 0 [proxy_A],
                Written []]\<rparr>)"
  by (simp add: WebScrapingJobLauncher_def init_def dispatch_def as_completed_def
      env_generic_def on_GenericError_def WriteJson_def failures_get_def MAX_RETRIES_def
      no_file_def not_created_def proxy_A_def proxy_str_def
      numeral_2_eq_2 numeral_3_eq_3 eval_nat_numeral)

lemma completes_A_wins:
  "as_completed env_A_wins 0 0 [proxy_A, proxy_B] =
     [(proxy_A, Returns Success), (proxy_B, Returns PageConnectionError)]"
  by (simp add: as_completed_def env_A_wins_def proxy_A_def proxy_B_def)

lemma run_A_wins:
  "WebScrapingJobLauncher 1 env_A_wins [proxy_A, proxy_B] [0] no_file not_created =
     (Unfinished,
      \<lparr>proxy_list = [proxy_A, proxy_B], proxy_failures = Map.empty, incomplete_jobs = [],
       IsCompleted = not_created(0 := True), clock = 1,
       trace = [Submitted 0 [proxy_A, proxy_B], Completed 0]\<rparr>)"
  by (simp add: WebScrapingJobLauncher_def init_def dispatch_def as_completed_def
      env_A_wins_def on_Success_def no_file_def proxy_A_def proxy_B_def)

lemma run_A_wins_twice:
  "WebScrapingJobLauncher 1 env_A_wins [proxy_A, proxy_B] [0, 2] no_file not_created =
     (Unfinished,
      \<lparr>proxy_list = [proxy_A, proxy_B], proxy_failures = Map.empty, incomplete_jobs = [],
       IsCompleted = not_created(0 := True, 2 := True), clock = 2,
       trace = [Submitted 0 [proxy_A, proxy_B], Completed 0,
                Submitted 2 [proxy_A, proxy_B], Completed 2]\<rparr>)"
  by (simp add: WebScrapingJobLauncher_def init_def dispatch_def as_completed_def
      env_A_wins_def on_Success_def no_file_def proxy_A_def proxy_B_def numeral_2_eq_2)



lemma run_flaky:
  "WebScrapingJobLauncher 1 env_flaky [proxy_B] [0, 1, 2] no_file not_created =
     (Unfinished,
      \<lparr>proxy_list = [proxy_B], proxy_failures = [proxy_str proxy_B \<mapsto> 2],
       incomplete_jobs = [0, 1],
       IsCompleted = not_created(2 := True), clock = 3,
       trace = [Submitted 0 [proxy_B], Submitted 1 [proxy_B], Submitted 2 [proxy_B],
                Completed 2]\<rparr>)"
  by (simp add: WebScrapingJobLauncher_def init_def dispatch_def as_completed_def
      env_flaky_def on_Success_def on_GenericError_def failures_get_def MAX_RETRIES_def
      no_file_def proxy_B_def proxy_str_def numeral_2_eq_2 numeral_3_eq_3)

lemma run_write_fails:
  "WebScrapingJobLauncher 1 env_write_fails [proxy_A, proxy_B] [0] no_file not_created =
     (Aborted WriteJsonRaised,
      \<lparr>proxy_list = [proxy_B], proxy_failures = Map.empty, incomplete_jobs = [0],
       IsCompleted = not_created, clock = 2,
       trace = [Submitted 0 [proxy_A, proxy_B]]\<rparr>)"
  by (simp add: WebScrapingJobLauncher_def init_def dispatch_def as_completed_def
      env_write_fails_def on_PageConnectionError_def WriteJson_def
      no_file_def proxy_A_def proxy_B_def numeral_2_eq_2)

lemma sweep_A_wins:
  "sweep env_A_wins [0] (init [proxy_A, proxy_B] [0] no_file not_created) =
     Inr \<lparr>proxy_list = [proxy_A, proxy_B], proxy_failures = Map.empty, incomplete_jobs = [],
          IsCompleted = not_created(0 := True), clock = 1,
          trace = [Submitted 0 [proxy_A, proxy_B], Completed 0]\<rparr>"
  by (simp add: init_def dispatch_def as_completed_def
      env_A_wins_def on_Success_def no_file_def proxy_A_def proxy_B_def)


lemma run_to_empty_write_fails:
  "WebScrapingJobLauncher 1 env_write_fails [proxy_A] [0, 2] no_file not_created =
     (Aborted WriteJsonRaised,
      \<lparr>proxy_list = [], proxy_failures = Map.empty, incomplete_jobs = [0, 2],
       IsCompleted = not_created, clock = 2,
       trace = [Submitted 0 [proxy_A]]\<rparr>)"
  by (simp add: WebScrapingJobLauncher_def init_def dispatch_def as_completed_def
      env_write_fails_def on_PageConnectionError_def WriteJson_def
      no_file_def proxy_A_def numeral_2_eq_2)

section \<open>The claims\<close>

subsection \<open>C1: the returned boolean\<close>

text \<open>
  C1. The claim is the promise of the docstring (\<^verbatim>\<open>true if all jobs completed
  successfully\<close>), on which the callers loop; the launcher does not keep it. In the run
  below the only job has no output file and proxy A succeeds for it in the first round,
  so every job ends completed. But a success removes no proxy, the loop condition is
  \<^verbatim>\<open>while proxy_list\<close> alone, and the launcher never returns: whatever the fuel the
  run is unfinished, in the state where the job is marked and no job is left. Line 233
  is reached with an empty proxy list only, and then it can only return \<open>False\<close>;
  \<open>True\<close> comes from line 190 alone.
\<close>

theorem all_jobs_succeed_never_returns:
  "fst (WebScrapingJobLauncher fuel env_A_wins [proxy_A, proxy_B] [0] no_file not_created)
     = Unfinished
   \<and> snd (WebScrapingJobLauncher (Suc fuel) env_A_wins [proxy_A, proxy_B] [0] no_file
           not_created)
     = \<lparr>proxy_list = [proxy_A, proxy_B], proxy_failures = Map.empty, incomplete_jobs = [],
        IsCompleted = not_created(0 := True), clock = 1,
        trace = [Submitted 0 [proxy_A, proxy_B], Completed 0]\<rparr>"
proof -
  let ?s0 = "init [proxy_A, proxy_B] [0] no_file not_created :: proxy launcher"
  let ?s1 = "\<lparr>proxy_list = [proxy_A, proxy_B], proxy_failures = Map.empty,
          incomplete_jobs = [], IsCompleted = not_created(0 := True), clock = 1,
          trace = [Submitted 0 [proxy_A, proxy_B], Completed 0]\<rparr> :: proxy launcher"
  have inc: "incomplete_jobs ?s0 = [0]" and pool: "proxy_list ?s0 \<noteq> []"
    by (simp_all add: init_def no_file_def)
  have loop: "round_loop n env_A_wins [0] ?s1 = (Unfinished, ?s1)" for n
    by (rule loop_never_returns_when_all_done) simp_all
  have step: "WebScrapingJobLauncher (Suc n) env_A_wins [proxy_A, proxy_B] [0] no_file
                not_created = (Unfinished, ?s1)" for n
    using inc pool sweep_A_wins loop [of n]
    by (simp add: WebScrapingJobLauncher_def Let_def)
  have "fst (WebScrapingJobLauncher fuel env_A_wins [proxy_A, proxy_B] [0] no_file
          not_created) = Unfinished"
  proof (cases fuel)
    case 0
    with inc show ?thesis by (simp add: WebScrapingJobLauncher_def Let_def)
  next
    case (Suc n)
    with step [of n] show ?thesis by simp
  qed
  with step [of fuel] show ?thesis by simp
qed

theorem all_jobs_succeed_never_returns_witness:
  "fst (WebScrapingJobLauncher 1000 env_A_wins [proxy_A, proxy_B] [0] no_file not_created)
     = Unfinished
   \<and> IsCompleted (snd (WebScrapingJobLauncher (Suc 1000) env_A_wins [proxy_A, proxy_B] [0]
                          no_file not_created)) 0
   \<and> list_all (IsCompleted (snd (WebScrapingJobLauncher (Suc 1000) env_A_wins
                          [proxy_A, proxy_B] [0] no_file not_created))) [0]"
  using all_jobs_succeed_never_returns [of 1000]
  by simp

subsection \<open>C2: a success and the failure tally\<close>

text \<open>
  C2, as stated, fails: proxy B fails twice with \<open>GenericError\<close> (jobs 0 and 1), then
  succeeds for job 2, and its tally entry is still 2.
\<close>

theorem success_keeps_tally:
  "as_completed env_flaky 2 2 [proxy_B] = [(proxy_B, Returns Success)]
   \<and> trace (snd (WebScrapingJobLauncher 1 env_flaky [proxy_B] [0, 1, 2] no_file not_created))
       = [Submitted 0 [proxy_B], Submitted 1 [proxy_B], Submitted 2 [proxy_B], Completed 2]
   \<and> proxy_failures
        (snd (WebScrapingJobLauncher 1 env_flaky [proxy_B] [0, 1, 2] no_file not_created))
        (proxy_str proxy_B) = Some 2"
  unfolding run_flaky by (simp add: as_completed_def env_flaky_def)

text \<open>
  C2, amended. A \<open>Success\<close> outcome changes neither the proxy list nor the failure
  tally, and writes nothing: its only event is the completion of the job.
\<close>

theorem success_changes_no_proxy_state:
  "proxy_list (final (consume env job ((proxy, Returns Success) # futures) s)) = proxy_list s
   \<and> proxy_failures (final (consume env job ((proxy, Returns Success) # futures) s))
       = proxy_failures s
   \<and> trace (final (consume env job ((proxy, Returns Success) # futures) s))
       = trace s @ [Completed job]"
  by (simp add: on_Success_def)

theorem success_changes_no_proxy_state_witness:
  "proxy_failures
     (final (consume env_flaky 2 ((proxy_B, Returns Success) # [])
        \<lparr>proxy_list = [proxy_B], proxy_failures = [proxy_str proxy_B \<mapsto> 2],
         incomplete_jobs = [0, 1, 2], IsCompleted = not_created, clock = 3,
         trace = [Submitted 0 [proxy_B], Submitted 1 [proxy_B], Submitted 2 [proxy_B]]\<rparr>))
     (proxy_str proxy_B) = Some 2"
  using success_changes_no_proxy_state [of env_flaky 2 proxy_B "[]"
     "\<lparr>proxy_list = [proxy_B], proxy_failures = [proxy_str proxy_B \<mapsto> 2],
         incomplete_jobs = [0, 1, 2], IsCompleted = not_created, clock = 3,
         trace = [Submitted 0 [proxy_B], Submitted 1 [proxy_B], Submitted 2 [proxy_B]]\<rparr>"]
  by simp

subsection \<open>C3: outcomes that are yielded after the success of a round\<close>

text \<open>
  C3, as stated, fails: in the round below the success of proxy A is yielded first, the
  \<open>PageConnectionError\<close> of proxy B after it, and B is still in the list and nothing
  is written.
\<close>

theorem late_connection_error_not_applied:
  "as_completed env_A_wins 0 0 [proxy_A, proxy_B] =
     [(proxy_A, Returns Success), (proxy_B, Returns PageConnectionError)]
   \<and> proxy_list (snd (WebScrapingJobLauncher 1 env_A_wins [proxy_A, proxy_B] [0]
                        no_file not_created)) = [proxy_A, proxy_B]
   \<and> trace (snd (WebScrapingJobLauncher 1 env_A_wins [proxy_A, proxy_B] [0]
                        no_file not_created)) = [Submitted 0 [proxy_A, proxy_B], Completed 0]"
  unfolding run_A_wins completes_A_wins by simp

text \<open>
  C3, amended. The first \<open>Success\<close> of a round ends the round: what the outcomes
  yielded after it are makes no difference to the state, so they change neither the
  proxy list, nor the failure tally, nor the completion of the job.
\<close>

theorem outcomes_after_success_discarded:
  "consume env job (before @ (proxy, Returns Success) # rest) s =
   consume env job (before @ [(proxy, Returns Success)]) s"
proof (induction env job before s rule: consume.induct)
  case (4 env job proxy futures s)
  then show ?case by (cases "on_PageConnectionError env proxy s") simp_all
next
  case (5 env job proxy futures s)
  then show ?case by (cases "on_GenericError env proxy s") simp_all
qed simp_all

theorem outcomes_after_success_discarded_witness:
  "consume env_A_wins 0
     ([] @ (proxy_A, Returns Success) # [(proxy_B, Returns PageConnectionError)])
     (init [proxy_A, proxy_B] [0] no_file not_created) =
   consume env_A_wins 0 ([] @ [(proxy_A, Returns Success)])
     (init [proxy_A, proxy_B] [0] no_file not_created)"
  by (rule outcomes_after_success_discarded)

subsection \<open>C4: a connection error evicts the proxy\<close>

text \<open>
  C4, as stated, fails: the attempt of proxy B for job 0 returns
  \<open>PageConnectionError\<close>, but it is yielded after the success of proxy A, so it is
  never consumed; B stays in the list and is in the snapshot of the next round, the one
  of job 2.
\<close>

theorem late_connection_error_proxy_reused:
  "as_completed env_A_wins 0 0 [proxy_A, proxy_B] =
     [(proxy_A, Returns Success), (proxy_B, Returns PageConnectionError)]
   \<and> trace (snd (WebScrapingJobLauncher 1 env_A_wins [proxy_A, proxy_B] [0, 2]
                        no_file not_created))
       = [Submitted 0 [proxy_A, proxy_B], Completed 0,
          Submitted 2 [proxy_A, proxy_B], Completed 2]
   \<and> proxy_B \<in> set (proxies_of (Submitted 2 [proxy_A, proxy_B]))"
  unfolding run_A_wins_twice completes_A_wins by simp

text \<open>
  C4, amended, in three parts. First, an outcome that is yielded with no \<open>Success\<close>
  before it in its round is consumed, from the state the earlier outcomes leave, unless
  one of them raised. Second, when a \<open>PageConnectionError\<close> is consumed for a proxy of
  a list without duplicates, the proxy is removed and the list is written at once, as the
  very next event and so before any later round is submitted, or that write raises and
  the run aborts there with the proxy removed in memory; either way the proxy is in no
  later state, in no snapshot submitted later and in no list written later, wherever
  the run is stopped. Third, a proxy whose outcome is yielded after a \<open>Success\<close> of
  its round is still in the list when the round ends, whatever that outcome is.
\<close>

theorem consumed_connection_error_evicts:
  "(Returns Success \<notin> snd ` set before \<longrightarrow>
      resume fuel env video_jobs job (before @ (proxy, Returns PageConnectionError) # futures)
        jobs s0 =
        (case consume env job before s0 of
           Inl (e, s') \<Rightarrow> (Aborted e, s')
         | Inr s1 \<Rightarrow>
             resume fuel env video_jobs job ((proxy, Returns PageConnectionError) # futures)
               jobs s1))
   \<and> (distinct (proxy_list s) \<longrightarrow> proxy \<in> set (proxy_list s) \<longrightarrow>
        proxy \<notin> set (proxy_list (snd
           (resume fuel env video_jobs job ((proxy, Returns PageConnectionError) # futures)
              jobs s)))
        \<and> (if WriteJson_raises env (clock s)
            then resume fuel env video_jobs job
                   ((proxy, Returns PageConnectionError) # futures) jobs s
                 = (Aborted WriteJsonRaised,
                    s\<lparr>proxy_list := remove1 proxy (proxy_list s), clock := Suc (clock s)\<rparr>)
            else prefix (trace s @ [Written (remove1 proxy (proxy_list s))])
                   (trace (snd (resume fuel env video_jobs job
                      ((proxy, Returns PageConnectionError) # futures) jobs s))))
        \<and> (\<forall>e\<in>set (drop (length (trace s)) (trace (snd
               (resume fuel env video_jobs job
                  ((proxy, Returns PageConnectionError) # futures) jobs s)))).
              proxy \<notin> set (proxies_of e)))
   \<and> (late \<in> set (proxy_list s) \<longrightarrow> late \<notin> fst ` set before \<longrightarrow>
        late \<in> set (proxy_list
           (final (consume env job (before @ (winner, Returns Success) # rest) s))))"
  using resume_append [of before fuel env video_jobs job
          "(proxy, Returns PageConnectionError) # futures" jobs s0]
    evicted_for_good [of s proxy fuel env video_jobs job futures jobs]
    late_outcome_keeps_proxy [of late s before env job winner rest]
  by blast

theorem consumed_connection_error_evicts_witness:
  "distinct (proxy_list (init [proxy_A, proxy_B] [0] no_file not_created))
   \<and> proxy_A \<in> set (proxy_list (init [proxy_A, proxy_B] [0] no_file not_created))
   \<and> proxy_A \<notin> set (proxy_list (snd
        (resume 2 env_dead [0] 0
           ((proxy_A, Returns PageConnectionError) # [(proxy_B, Returns PageConnectionError)])
           [] (init [proxy_A, proxy_B] [0] no_file not_created))))
   \<and> prefix (trace (init [proxy_A, proxy_B] [0] no_file not_created) @ [Written [proxy_B]])
        (trace (snd
        (resume 2 env_dead [0] 0
           ((proxy_A, Returns PageConnectionError) # [(proxy_B, Returns PageConnectionError)])
           [] (init [proxy_A, proxy_B] [0] no_file not_created))))
   \<and> proxy_B \<in> set (proxy_list (init [proxy_A, proxy_B] [0] no_file not_created))
   \<and> proxy_B \<notin> fst ` set ([] :: (proxy \<times> attempt) list)
   \<and> proxy_B \<in> set (proxy_list (final
        (consume env_dead 0
           ([] @ (proxy_A, Returns Success) # [(proxy_B, Returns PageConnectionError)])
           (init [proxy_A, proxy_B] [0] no_file not_created))))"
proof -
  let ?s = "init [proxy_A, proxy_B] [0] no_file not_created :: proxy launcher"
  have 1: "distinct (proxy_list ?s)"
    by (simp add: init_def proxy_A_def proxy_B_def)
  have 2: "proxy_A \<in> set (proxy_list ?s)" "proxy_B \<in> set (proxy_list ?s)"
    by (simp_all add: init_def)
  have 3: "\<not> WriteJson_raises env_dead (clock ?s)"
    by (simp add: env_dead_def)
  have 4: "remove1 proxy_A (proxy_list ?s) = [proxy_B]"
    by (simp add: init_def)
  have 5: "proxy_B \<notin> fst ` set ([] :: (proxy \<times> attempt) list)" by simp
  from consumed_connection_error_evicts
         [of "[]" 2 env_dead "[0]" 0 proxy_A "[(proxy_B, Returns PageConnectionError)]" "[]"
             ?s ?s proxy_B proxy_A "[(proxy_B, Returns PageConnectionError)]"]
       1 2 3 4 5
  show ?thesis by simp
qed

subsection \<open>C5: generic errors count up to the ceiling\<close>




subsection \<open>C6: an empty pool ends the run\<close>

text \<open>
  C6, as stated, fails: the list becomes empty at line 217, one statement before the
  write of line 218; that write raises, and the run fails with an error and an empty
  list.
\<close>

theorem emptied_pool_write_fails:
  "fst (WebScrapingJobLauncher 1 env_write_fails [proxy_A] [0, 2] no_file not_created)
     = Aborted WriteJsonRaised
   \<and> proxy_list (snd (WebScrapingJobLauncher 1 env_write_fails [proxy_A] [0, 2] no_file
                         not_created)) = []"
  unfolding run_to_empty_write_fails by simp

text \<open>
  C6, amended. When the outcome that is consumed removes the last proxy (the outcomes
  still to consume belong to proxies of the list, so there is none after it): if the
  write of the emptied list returns, the remaining jobs of the sweep are passed over
  without any call of the work function and without any change to the jobs, and the next
  evaluation of the loop condition (one unit of fuel is enough) returns whether every
  loaded job is marked completed, which is \<open>False\<close> as soon as one job is left
  incomplete; if that write raises, the run fails with that error, the list empty. From
  a point where the list is already empty the run ends in the first way.
\<close>

theorem emptied_pool_ends_run:
  "(evicting s proxy status \<longrightarrow> remove1 proxy (proxy_list s) = [] \<longrightarrow>
      mset (map fst ((proxy, Returns status) # futures)) \<subseteq># mset (proxy_list s) \<longrightarrow>
      (if WriteJson_raises env (clock s)
       then fst (resume (Suc fuel) env video_jobs job ((proxy, Returns status) # futures)
                   jobs s) = Aborted WriteJsonRaised
            \<and> proxy_list (snd (resume (Suc fuel) env video_jobs job
                   ((proxy, Returns status) # futures) jobs s)) = []
       else fst (resume (Suc fuel) env video_jobs job ((proxy, Returns status) # futures)
                   jobs s) = Returned (list_all (IsCompleted s) video_jobs)
            \<and> proxy_list (snd (resume (Suc fuel) env video_jobs job
                   ((proxy, Returns status) # futures) jobs s)) = []
            \<and> IsCompleted (snd (resume (Suc fuel) env video_jobs job
                   ((proxy, Returns status) # futures) jobs s)) = IsCompleted s
            \<and> incomplete_jobs (snd (resume (Suc fuel) env video_jobs job
                   ((proxy, Returns status) # futures) jobs s)) = incomplete_jobs s
            \<and> invocations (snd (resume (Suc fuel) env video_jobs job
                   ((proxy, Returns status) # futures) jobs s)) = invocations s))
   \<and> (proxy_list s = [] \<longrightarrow> mset (map fst futures) \<subseteq># mset (proxy_list s) \<longrightarrow>
        fst (resume (Suc fuel) env video_jobs job futures jobs s)
           = Returned (list_all (IsCompleted s) video_jobs)
         \<and> proxy_list (snd (resume (Suc fuel) env video_jobs job futures jobs s)) = []
         \<and> IsCompleted (snd (resume (Suc fuel) env video_jobs job futures jobs s))
             = IsCompleted s
         \<and> incomplete_jobs (snd (resume (Suc fuel) env video_jobs job futures jobs s))
             = incomplete_jobs s
         \<and> invocations (snd (resume (Suc fuel) env video_jobs job futures jobs s))
             = invocations s)"
proof (rule conjI)
  let ?r = "resume (Suc fuel) env video_jobs job ((proxy, Returns status) # futures) jobs s"
  show "evicting s proxy status \<longrightarrow> remove1 proxy (proxy_list s) = [] \<longrightarrow>
      mset (map fst ((proxy, Returns status) # futures)) \<subseteq># mset (proxy_list s) \<longrightarrow>
      (if WriteJson_raises env (clock s)
       then fst ?r = Aborted WriteJsonRaised \<and> proxy_list (snd ?r) = []
       else fst ?r = Returned (list_all (IsCompleted s) video_jobs)
            \<and> proxy_list (snd ?r) = []
            \<and> IsCompleted (snd ?r) = IsCompleted s
            \<and> incomplete_jobs (snd ?r) = incomplete_jobs s
            \<and> invocations (snd ?r) = invocations s)"
  proof (intro impI)
    assume ev: "evicting s proxy status" and em: "remove1 proxy (proxy_list s) = []"
      and ms: "mset (map fst ((proxy, Returns status) # futures)) \<subseteq># mset (proxy_list s)"
    from ms have mem: "proxy \<in> set (proxy_list s)"
      and "mset (map fst futures) \<subseteq># mset (remove1 proxy (proxy_list s))"
      by (simp_all add: insert_subset_eq_iff)
    with em have nil: "futures = []" by simp
    from ev have st: "status = PageConnectionError \<or> status = GenericError
        \<and> MAX_RETRIES \<le> failures_get (proxy_failures s) (proxy_str proxy) + 1"
      by (auto simp: evicting_def)
    show "if WriteJson_raises env (clock s)
       then fst ?r = Aborted WriteJsonRaised \<and> proxy_list (snd ?r) = []
       else fst ?r = Returned (list_all (IsCompleted s) video_jobs)
            \<and> proxy_list (snd ?r) = []
            \<and> IsCompleted (snd ?r) = IsCompleted s
            \<and> incomplete_jobs (snd ?r) = incomplete_jobs s
            \<and> invocations (snd ?r) = invocations s"
    proof (cases "WriteJson_raises env (clock s)")
      case True
      from st True mem em have "fst ?r = Aborted WriteJsonRaised \<and> proxy_list (snd ?r) = []"
        by (auto simp: resume_def on_PageConnectionError_def on_GenericError_def
            WriteJson_def Let_def)
      with True show ?thesis by simp
    next
      case False
      from st False mem em nil obtain s2 where
        s2: "consume env job ((proxy, Returns status) # futures) s = Inr s2"
          "proxy_list s2 = []" "IsCompleted s2 = IsCompleted s"
          "incomplete_jobs s2 = incomplete_jobs s" "invocations s2 = invocations s"
        by (auto simp: on_PageConnectionError_def on_GenericError_def
            WriteJson_def Let_def invocations_def)
      from s2(1) have r: "?r = resume (Suc fuel) env video_jobs job [] jobs s2"
        by (simp add: resume_def)
      from empty_pool_returns [of s2 "[]" fuel env video_jobs job jobs] s2 r False
      show ?thesis by simp
    qed
  qed
next
  show "proxy_list s = [] \<longrightarrow> mset (map fst futures) \<subseteq># mset (proxy_list s) \<longrightarrow>
        fst (resume (Suc fuel) env video_jobs job futures jobs s)
           = Returned (list_all (IsCompleted s) video_jobs)
         \<and> proxy_list (snd (resume (Suc fuel) env video_jobs job futures jobs s)) = []
         \<and> IsCompleted (snd (resume (Suc fuel) env video_jobs job futures jobs s))
             = IsCompleted s
         \<and> incomplete_jobs (snd (resume (Suc fuel) env video_jobs job futures jobs s))
             = incomplete_jobs s
         \<and> invocations (snd (resume (Suc fuel) env video_jobs job futures jobs s))
             = invocations s"
    using empty_pool_returns [of s futures fuel env video_jobs job jobs] by blast
qed

theorem emptied_pool_ends_run_witness:
  "evicting (init [proxy_A] [0, 2] no_file not_created) proxy_A PageConnectionError
   \<and> remove1 proxy_A (proxy_list (init [proxy_A] [0, 2] no_file not_created)) = []
   \<and> fst (resume (Suc 0) env_dead [0, 2] 0 ((proxy_A, Returns PageConnectionError) # []) [2]
            (init [proxy_A] [0, 2] no_file not_created)) = Returned False
   \<and> proxy_list (snd (resume (Suc 0) env_dead [0, 2] 0
            ((proxy_A, Returns PageConnectionError) # []) [2]
            (init [proxy_A] [0, 2] no_file not_created))) = []"
proof -
  let ?s = "init [proxy_A] [0, 2] no_file not_created :: proxy launcher"
  have 1: "evicting ?s proxy_A PageConnectionError"
    by (simp add: evicting_def init_def)
  have 2: "remove1 proxy_A (proxy_list ?s) = []"
    by (simp add: init_def)
  have 3: "mset (map fst ((proxy_A, Returns PageConnectionError) # [])) \<subseteq># mset (proxy_list ?s)"
    by (simp add: init_def)
  have 4: "\<not> WriteJson_raises env_dead (clock ?s)"
    by (simp add: env_dead_def)
  have 5: "list_all (IsCompleted ?s) [0, 2] = False"
    by (simp add: init_def not_created_def)
  note T = emptied_pool_ends_run
    [where s = ?s and proxy = proxy_A and status = PageConnectionError and futures = "[]"
       and env = env_dead and fuel = 0 and video_jobs = "[0, 2]" and job = 0 and jobs = "[2]"]
  from T 1 2 3 4 have
    "fst (resume (Suc 0) env_dead [0, 2] 0 ((proxy_A, Returns PageConnectionError) # []) [2]
            ?s) = Returned (list_all (IsCompleted ?s) [0, 2])"
    "proxy_list (snd (resume (Suc 0) env_dead [0, 2] 0
            ((proxy_A, Returns PageConnectionError) # []) [2] ?s)) = []"
    by (simp_all only: if_False simp_thms)
  with 1 2 5 show ?thesis by simp
qed

subsection \<open>C7: jobs whose output exists are skipped\<close>

text \<open>
  C7. For a job whose output file exists when the launcher starts, the work function is
  never called during the whole run: whatever the fuel, no call of the trace is for that
  job. And when the output of every job exists, the launcher returns \<open>True\<close> at
  once: with any fuel, even none, and without any event.
\<close>

theorem existing_output_never_uploaded:
  "(isfile job \<longrightarrow>
      (job, proxy) \<notin> set (invocations
         (snd (WebScrapingJobLauncher fuel env loaded video_jobs isfile created))))
   \<and> ((\<forall>job\<in>set video_jobs. isfile job) \<longrightarrow>
        WebScrapingJobLauncher fuel env loaded video_jobs isfile created =
          (Returned True, init loaded video_jobs isfile created)
        \<and> trace (init loaded video_jobs isfile created) = [])"
proof -
  let ?P = "\<lambda>s. (\<forall>job\<in>set (incomplete_jobs s). \<not> isfile job) \<and>
          (\<forall>e\<in>set (trace s). \<forall>job snapshot. e = Submitted job snapshot \<longrightarrow> \<not> isfile job)"
  let ?s = "snd (WebScrapingJobLauncher fuel env loaded video_jobs isfile created)"
  have "?P (init loaded video_jobs isfile created)"
    by (simp add: init_def)
  from stable_launcher [OF stable_skips _ this] have "?P ?s"
    by simp
  then have 1: "isfile job \<longrightarrow> (job, proxy) \<notin> set (invocations ?s)"
    by (auto simp: invocations_def dest!: calls_job)
  have 2: "(\<forall>job\<in>set video_jobs. isfile job) \<longrightarrow>
        WebScrapingJobLauncher fuel env loaded video_jobs isfile created =
          (Returned True, init loaded video_jobs isfile created)
        \<and> trace (init loaded video_jobs isfile created) = []"
    by (simp add: WebScrapingJobLauncher_def init_def filter_empty_conv)
  from 1 2 show ?thesis by blast
qed

theorem existing_output_never_uploaded_witness:
  "first_has_file 0
   \<and> (0, proxy_A) \<notin> set (invocations
         (snd (WebScrapingJobLauncher 2 env_dead [proxy_A, proxy_B] [0, 1] first_has_file not_created)))
   \<and> (1, proxy_A) \<in> set (invocations
         (snd (WebScrapingJobLauncher 2 env_dead [proxy_A, proxy_B] [0, 1] first_has_file not_created)))
   \<and> WebScrapingJobLauncher 2 env_dead [proxy_A, proxy_B] [0] first_has_file not_created =
       (Returned True, init [proxy_A, proxy_B] [0] first_has_file not_created)"
  using existing_output_never_uploaded
          [of first_has_file 0 proxy_A 2 env_dead "[proxy_A, proxy_B]" "[0, 1]" not_created]
        existing_output_never_uploaded
          [of first_has_file 0 proxy_A 2 env_dead "[proxy_A, proxy_B]" "[0]" not_created]
  unfolding run_skip
  by (simp add: invocations_def first_has_file_def)

subsection \<open>C8: the completed flag is latched\<close>

text \<open>
  C8. The flag \<^verbatim>\<open>IsCompleted\<close> of a job only goes from false to true. From any
  point of a run where the flag of a job is set, it is set at every later point; at any
  point every job the launcher has marked is still marked; and when the loaded jobs are
  pairwise distinct objects no job is marked twice: the trace holds at most one
  completion for each job.
\<close>

theorem completed_flag_is_latched:
  "(IsCompleted s j \<longrightarrow> IsCompleted (snd (resume fuel env video_jobs job futures jobs s)) j)
   \<and> (\<forall>k\<in>set (completions
                 (snd (WebScrapingJobLauncher fuel env loaded video_jobs isfile created))).
         IsCompleted (snd (WebScrapingJobLauncher fuel env loaded video_jobs isfile created)) k)
   \<and> (distinct video_jobs \<longrightarrow>
        distinct (completions
          (snd (WebScrapingJobLauncher fuel env loaded video_jobs isfile created))))"
proof (intro conjI impI)
  assume "IsCompleted s j"
  then show "IsCompleted (snd (resume fuel env video_jobs job futures jobs s)) j"
    by (rule stable_resume [OF stable_IsCompleted, rotated 3]) simp_all
next
  let ?P = "\<lambda>s. \<forall>j\<in>set (completions s). IsCompleted s j"
  have "?P (init loaded video_jobs isfile created)"
    by (simp add: init_def completions_def)
  from stable_launcher [OF stable_marked_completed _ this]
  show "?P (snd (WebScrapingJobLauncher fuel env loaded video_jobs isfile created))"
    by simp
next
  assume "distinct video_jobs"
  then show "distinct (completions
      (snd (WebScrapingJobLauncher fuel env loaded video_jobs isfile created)))"
    by (rule marked_once)
qed

theorem completed_flag_is_latched_witness:
  "IsCompleted (on_Success 0 (init [proxy_A, proxy_B] [0, 2] no_file not_created)) 0
   \<and> IsCompleted
        (snd (resume 1 env_dead [0, 2] 2 [(proxy_A, Returns PageConnectionError)] []
               (on_Success 0 (init [proxy_A, proxy_B] [0, 2] no_file not_created)))) 0
   \<and> distinct [0, 2 :: job]
   \<and> completions (snd (WebScrapingJobLauncher 1 env_A_wins [proxy_A, proxy_B] [0, 2]
                          no_file not_created)) = [0, 2]
   \<and> distinct (completions (snd (WebScrapingJobLauncher 1 env_A_wins [proxy_A, proxy_B] [0, 2]
                          no_file not_created)))"
proof -
  have 1: "IsCompleted (on_Success 0 (init [proxy_A, proxy_B] [0, 2] no_file not_created)) 0"
    by (simp add: on_Success_def)
  have 2: "distinct [0, 2 :: job]" by simp
  have 3: "completions (snd (WebScrapingJobLauncher 1 env_A_wins [proxy_A, proxy_B] [0, 2]
                          no_file not_created)) = [0, 2]"
    unfolding run_A_wins_twice by (simp add: completions_def)
  from completed_flag_is_latched
         [of "on_Success 0 (init [proxy_A, proxy_B] [0, 2] no_file not_created)" 0
             1 env_dead "[0, 2]" 2 "[(proxy_A, Returns PageConnectionError)]" "[]"
             "[proxy_A, proxy_B]" no_file not_created]
         completed_flag_is_latched
         [of "on_Success 0 (init [proxy_A, proxy_B] [0, 2] no_file not_created)" 0
             1 env_A_wins "[0, 2]" 2 "[(proxy_A, Returns PageConnectionError)]" "[]"
             "[proxy_A, proxy_B]" no_file not_created]
       1 2 3
  show ?thesis by blast
qed

subsection \<open>C9: a write of the proxy file that raises\<close>

text \<open>
  C9, as stated, fails: the first write raises and the run is aborted with that error.
\<close>

theorem write_failure_aborts_run:
  "fst (WebScrapingJobLauncher 1 env_write_fails [proxy_A, proxy_B] [0] no_file not_created)
     = Aborted WriteJsonRaised"
  unfolding run_write_fails by simp

text \<open>
  C9, amended. The launcher has no handler around \<^verbatim>\<open>WriteJson\<close>: when the write
  that follows an eviction raises, the run aborts there with that error; the proxy is
  already removed from the list in memory, nothing is written, and neither the remaining
  outcomes of the round nor the remaining jobs are processed.
\<close>

theorem write_failure_aborts:
  assumes "WriteJson_raises env (clock s)" and "evicting s proxy status"
  shows "resume fuel env video_jobs job ((proxy, Returns status) # futures) jobs s =
           (Aborted WriteJsonRaised,
            s\<lparr>proxy_list := remove1 proxy (proxy_list s),
              proxy_failures :=
                (if status = GenericError then (proxy_failures s)(proxy_str proxy := None)
                 else proxy_failures s),
              clock := Suc (clock s)\<rparr>)"
proof (rule resume_abort)
  from assms(2) consider
    "status = PageConnectionError" "proxy \<in> set (proxy_list s)"
    | "status = GenericError"
      "MAX_RETRIES \<le> failures_get (proxy_failures s) (proxy_str proxy) + 1"
    by (auto simp: evicting_def)
  then show "consume env job ((proxy, Returns status) # futures) s =
      Inl (WriteJsonRaised,
            s\<lparr>proxy_list := remove1 proxy (proxy_list s),
              proxy_failures :=
                (if status = GenericError then (proxy_failures s)(proxy_str proxy := None)
                 else proxy_failures s),
              clock := Suc (clock s)\<rparr>)"
  proof cases
    case 1
    with assms(1) show ?thesis
      by (simp add: on_PageConnectionError_def WriteJson_def)
  next
    case 2
    with assms(1) show ?thesis
      by (simp add: on_GenericError_def WriteJson_def Let_def remove1_idem)
  qed
qed

theorem write_failure_aborts_witness:
  "WriteJson_raises env_write_fails 1
   \<and> evicting (init [proxy_A, proxy_B] [0] no_file not_created\<lparr>clock := 1\<rparr>)
        proxy_A PageConnectionError
   \<and> fst (resume 1 env_write_fails [0] 0
            [(proxy_A, Returns PageConnectionError), (proxy_B, Returns PageConnectionError)] []
            (init [proxy_A, proxy_B] [0] no_file not_created\<lparr>clock := 1\<rparr>))
       = Aborted WriteJsonRaised"
proof -
  have 1: "WriteJson_raises env_write_fails
             (clock (init [proxy_A, proxy_B] [0] no_file not_created\<lparr>clock := 1\<rparr>))"
    by (simp add: env_write_fails_def)
  have 2: "evicting (init [proxy_A, proxy_B] [0] no_file not_created\<lparr>clock := 1\<rparr>)
        proxy_A PageConnectionError"
    by (simp add: evicting_def init_def)
  from write_failure_aborts [OF 1 2] 1 2 show ?thesis
    by (simp add: env_write_fails_def)
qed

subsection \<open>C10: the proxy pool only shrinks\<close>

text \<open>
  C10. At every point of a run the proxy list is an order-preserving sublist of the list
  that was loaded, and nothing is ever inserted: whatever the fuel (so wherever the run is
  stopped, aborted or returned), the current list, every snapshot submitted to a round and
  every list written to the proxy file are subsequences of the loaded list; and from any
  point of a run to any later point the list at the later point is a subsequence of the
  list at the earlier one.
\<close>

theorem pool_only_shrinks:
  "subseq (proxy_list (snd (WebScrapingJobLauncher fuel env loaded video_jobs isfile created)))
     loaded
   \<and> (\<forall>e\<in>set (trace (snd (WebScrapingJobLauncher fuel env loaded video_jobs isfile created))).
         subseq (proxies_of e) loaded)
   \<and> subseq (proxy_list (snd (resume fuel env video_jobs job futures jobs s))) (proxy_list s)"
proof -
  let ?P = "\<lambda>l s. subseq (proxy_list s) l \<and> (\<forall>e\<in>set (trace s). subseq (proxies_of e) l)"
  have "?P loaded (init loaded video_jobs isfile created)"
    by (simp add: init_def)
  from stable_launcher [OF stable_shrinks _ this]
  have 1: "?P loaded (snd (WebScrapingJobLauncher fuel env loaded video_jobs isfile created))"
    by simp
  let ?R = "\<lambda>s'. subseq (proxy_list s') (proxy_list s)"
  have st: "stable env (\<lambda>job. True) ?R"
    unfolding stable_def on_Success_def on_PageConnectionError_def on_GenericError_def
      WriteJson_def Let_def
    by (auto intro: subseq_order.trans [OF subseq_remove1])
  have 2: "?R (snd (resume fuel env video_jobs job futures jobs s))"
    by (rule stable_resume [OF st]) simp_all
  from 1 2 show ?thesis by blast
qed

theorem pool_only_shrinks_witness:
  "Written [proxy_B]
     \<in> set (trace (snd (WebScrapingJobLauncher 2 env_dead [proxy_A, proxy_B] [0]
                          no_file not_created)))
   \<and> subseq (proxies_of (Written [proxy_B])) [proxy_A, proxy_B]"
  using pool_only_shrinks [of 2 env_dead "[proxy_A, proxy_B]" "[0]" no_file not_created]
  by (simp add: run_dead)

end
